theory Spec2Isabelle
  imports Complex_Main "HOL-Library.Multiset"
begin

section \<open>The Hungarian matcher of \<^verbatim>\<open>src/models/matcher.py\<close>\<close>

text \<open>
  Tensors of floating-point numbers are modelled as nested lists of reals: a tensor of
  shape \<open>[n, m]\<close> is a list of \<open>n\<close> rows of length \<open>m\<close>. A box is a tensor row of four
  numbers, in centre-size form \<open>(cx, cy, w, h)\<close> or in corner form
  \<open>(x_min, y_min, x_max, y_max)\<close>. Index tensors hold natural numbers, class labels
  (which Python lets be negative) are integers. Every \<^verbatim>\<open>raise\<close> of the program is an
  \<open>Inl\<close> value.
\<close>

type_synonym box = "real \<times> real \<times> real \<times> real"

datatype error = AssertionError | IndexError | RuntimeError

subsection \<open>The matcher object and its constructor\<close>

record matcher =
  cost_class :: real
  cost_bbox :: real
  cost_giou :: real

text \<open>
  \<^verbatim>\<open>__init__\<close> stores the three weights and then asserts that one of them is not zero. A
  failed assertion raises, so no object is returned.
\<close>

definition init :: "real \<Rightarrow> real \<Rightarrow> real \<Rightarrow> error + matcher" where
  "init cc cb cg =
     (let self = \<lparr>cost_class = cc, cost_bbox = cb, cost_giou = cg\<rparr>
      in if cc \<noteq> 0 \<or> cb \<noteq> 0 \<or> cg \<noteq> 0 then Inr self else Inl AssertionError)"

subsection \<open>Geometry helpers\<close>

text \<open>
  Modelled from the spec: \<^verbatim>\<open>box_cxcywh_to_xyxy\<close> of \<^verbatim>\<open>util/box_ops.py\<close>, which
  \<^verbatim>\<open>matcher.py\<close> imports and which is not among the sources. The spec (4.1,
  \<^verbatim>\<open>center_size_to_corners\<close>) says it converts \<open>(cx, cy, w, h)\<close> to
  \<open>(x_min, y_min, x_max, y_max)\<close>, independently per box.
\<close>

fun box_cxcywh_to_xyxy :: "box \<Rightarrow> box" where
  "box_cxcywh_to_xyxy (cx, cy, w, h) = (cx - w / 2, cy - h / 2, cx + w / 2, cy + h / 2)"

subsection \<open>Tensor operations\<close>

text \<open>\<^verbatim>\<open>softmax(-1)\<close> of one row of logits.\<close>

definition softmax :: "real list \<Rightarrow> real list" where
  "softmax xs = map (\<lambda>x. exp x / sum_list (map exp xs)) xs"

text \<open>
  Indexing with an index tensor: an index \<open>i\<close> into a dimension of size \<open>n\<close> is accepted
  when \<open>-n \<le> i < n\<close>, a negative one counting from the end; any other raises
  \<^verbatim>\<open>IndexError\<close>.
\<close>

definition valid_index :: "nat \<Rightarrow> int \<Rightarrow> bool" where
  "valid_index n i \<longleftrightarrow> - int n \<le> i \<and> i < int n"

definition wrap_index :: "nat \<Rightarrow> int \<Rightarrow> nat" where
  "wrap_index n i = (if i < 0 then nat (i + int n) else nat i)"

text \<open>\<^verbatim>\<open>out_prob[:, tgt_ids]\<close>: of every row, the entries at the listed columns.\<close>

definition index_columns :: "real list list \<Rightarrow> int list \<Rightarrow> error + real list list" where
  "index_columns m ids =
     (if list_all (\<lambda>row. list_all (valid_index (length row)) ids) m
      then Inr (map (\<lambda>row. map (\<lambda>i. row ! wrap_index (length row) i) ids) m)
      else Inl IndexError)"

text \<open>\<^verbatim>\<open>torch.cdist(x, y, p=1)\<close> on boxes: the matrix of pairwise L1 distances.\<close>

fun l1_dist :: "box \<Rightarrow> box \<Rightarrow> real" where
  "l1_dist (a0, a1, a2, a3) (b0, b1, b2, b3) =
     \<bar>a0 - b0\<bar> + \<bar>a1 - b1\<bar> + \<bar>a2 - b2\<bar> + \<bar>a3 - b3\<bar>"

definition cdist :: "box list \<Rightarrow> box list \<Rightarrow> real list list" where
  "cdist xs ys = map (\<lambda>x. map (l1_dist x) ys) xs"

text \<open>
  \<^verbatim>\<open>generalized_box_iou(boxes1, boxes2)\<close> returns the matrix of the pairwise values. The
  function is not among the sources, so the matcher is modelled for any pairwise
  function \<open>giou\<close> that returns a number for every pair of corner-form boxes.
\<close>

definition generalized_box_iou ::
  "(box \<Rightarrow> box \<Rightarrow> real) \<Rightarrow> box list \<Rightarrow> box list \<Rightarrow> real list list" where
  "generalized_box_iou giou xs ys = map (\<lambda>x. map (giou x) ys) xs"

text \<open>Negation, product with a scalar and sum of matrices, entry by entry.\<close>

definition mat_neg :: "real list list \<Rightarrow> real list list" where
  "mat_neg m = map (map uminus) m"

definition mat_scale :: "real \<Rightarrow> real list list \<Rightarrow> real list list" where
  "mat_scale w m = map (map ((*) w)) m"

definition mat_add :: "real list list \<Rightarrow> real list list \<Rightarrow> real list list" where
  "mat_add m n = map2 (map2 (+)) m n"

text \<open>
  \<^verbatim>\<open>C.view(bs, num_queries, -1)\<close> of a matrix with \<open>bs * num_queries\<close> rows: the rows in
  \<open>bs\<close> groups of \<open>num_queries\<close>. The size of the last dimension is inferred, which torch
  refuses when the given sizes have product zero.
\<close>

definition view :: "nat \<Rightarrow> nat \<Rightarrow> 'a list \<Rightarrow> error + 'a list list" where
  "view bs nq rows =
     (if bs * nq = 0 then Inl RuntimeError
      else Inr (map (\<lambda>b. take nq (drop (b * nq) rows)) [0..<bs]))"

text \<open>
  \<^verbatim>\<open>C.split(sizes, -1)\<close>: consecutive blocks of the last dimension, of the given sizes;
  the result has one tensor per size.
\<close>

fun split_sizes :: "nat list \<Rightarrow> 'a list \<Rightarrow> 'a list list" where
  "split_sizes [] xs = []"
| "split_sizes (n # ns) xs = take n xs # split_sizes ns (drop n xs)"

definition split :: "nat list \<Rightarrow> 'a list list list \<Rightarrow> 'a list list list list" where
  "split sizes c = map (\<lambda>k. map (map (\<lambda>row. split_sizes sizes row ! k)) c) [0..<length sizes]"

subsection \<open>The assignment solver\<close>

text \<open>
  Modelled from the spec: \<^verbatim>\<open>scipy.optimize.linear_sum_assignment\<close>, a library function
  that is not among the sources. The spec (4.3) asks for an exact solver on a possibly
  rectangular matrix, which matches every element of the smaller side once, returns the
  assignment of minimum total cost, returns two empty sequences when there is no
  target, and breaks ties by a fixed rule. The model searches all assignments: it lists
  them in a fixed order, the rows of each in increasing order, and returns the first of
  least cost. The spec fixes neither the order of the returned pairs nor the rule for
  ties; both are choices of the model, and the results below use only that the returned
  assignment is valid and of least cost. The cost entries are reals: what the library
  does with an entry that is not a finite number is not modelled.
\<close>

fun rows_choice :: "nat \<Rightarrow> 'a list \<Rightarrow> 'a list list" where
  "rows_choice 0 xs = [[]]"
| "rows_choice (Suc k) [] = []"
| "rows_choice (Suc k) (x # xs) = map ((#) x) (rows_choice k xs) @ rows_choice (Suc k) xs"

fun injections :: "nat \<Rightarrow> 'a list \<Rightarrow> 'a list list" where
  "injections 0 xs = [[]]"
| "injections (Suc k) xs = concat (map (\<lambda>x. map ((#) x) (injections k (remove1 x xs))) xs)"

definition assignments :: "nat \<Rightarrow> nat \<Rightarrow> (nat list \<times> nat list) list" where
  "assignments nr nc =
     (let k = min nr nc
      in concat (map (\<lambda>rs. map (\<lambda>cs. (rs, cs)) (injections k [0..<nc])) (rows_choice k [0..<nr])))"

definition assignment_cost :: "real list list \<Rightarrow> nat list \<times> nat list \<Rightarrow> real" where
  "assignment_cost c a = sum_list (map (\<lambda>(i, j). c ! i ! j) (zip (fst a) (snd a)))"

definition linear_sum_assignment :: "real list list \<Rightarrow> nat list \<times> nat list" where
  "linear_sum_assignment c =
     (let nr = length c; nc = (case c of [] \<Rightarrow> 0 | row # _ \<Rightarrow> length row)
      in if nc = 0 then ([], [])
         else arg_min_list (assignment_cost c) (assignments nr nc))"


subsection \<open>The forward pass\<close>

record outputs =
  pred_logits :: "real list list list"
  pred_boxes :: "box list list"

record target =
  labels :: "int list"
  boxes :: "box list"

text \<open>
  Lines 53 to 59: the cost matrix between the rows of \<open>out_prob\<close> and \<open>out_bbox\<close> and the
  columns of \<open>tgt_ids\<close> and \<open>tgt_bbox\<close>.
\<close>

definition cost_matrix ::
  "(box \<Rightarrow> box \<Rightarrow> real) \<Rightarrow> 'a matcher_scheme \<Rightarrow> real list list \<Rightarrow> box list \<Rightarrow>
   int list \<Rightarrow> box list \<Rightarrow> error + real list list" where
  "cost_matrix giou self out_prob out_bbox tgt_ids tgt_bbox =
     (case index_columns out_prob tgt_ids of
        Inl e \<Rightarrow> Inl e
      | Inr picked \<Rightarrow>
          let class_cost = mat_neg picked;
              bbox_cost = cdist out_bbox tgt_bbox;
              giou_cost = mat_neg (generalized_box_iou giou (map box_cxcywh_to_xyxy out_bbox)
                                 (map box_cxcywh_to_xyxy tgt_bbox))
          in Inr (mat_add (mat_add (mat_scale (cost_bbox self) bbox_cost)
                           (mat_scale (cost_class self) class_cost))
                      (mat_scale (cost_giou self) giou_cost)))"

definition num_queries :: "outputs \<Rightarrow> nat" where
  "num_queries outputs = (case pred_logits outputs of [] \<Rightarrow> 0 | q # _ \<Rightarrow> length q)"

text \<open>
  Lines 47 to 59 on the whole batch: the predictions flattened over the batch, the
  targets concatenated. \<^verbatim>\<open>torch.cat\<close> refuses an empty list of tensors.
\<close>

definition full_cost_matrix ::
  "(box \<Rightarrow> box \<Rightarrow> real) \<Rightarrow> 'a matcher_scheme \<Rightarrow> outputs \<Rightarrow> target list \<Rightarrow>
   error + real list list" where
  "full_cost_matrix giou self outputs targets =
     (let out_prob = map softmax (concat (pred_logits outputs));
          out_bbox = concat (pred_boxes outputs)
      in if targets = [] then Inl RuntimeError
         else cost_matrix giou self out_prob out_bbox
                (concat (map labels targets)) (concat (map boxes targets)))"

text \<open>
  Lines 60 to 63: the slices \<^verbatim>\<open>c[i]\<close> handed to the solver, one for each element of
  \<^verbatim>\<open>targets\<close>; \<^verbatim>\<open>c[i]\<close> raises when \<open>i\<close> is not below the batch size.
\<close>

definition cost_slices ::
  "(box \<Rightarrow> box \<Rightarrow> real) \<Rightarrow> 'a matcher_scheme \<Rightarrow> outputs \<Rightarrow> target list \<Rightarrow>
   error + real list list list" where
  "cost_slices giou self outputs targets =
     (let bs = length (pred_logits outputs) in
      case full_cost_matrix giou self outputs targets of
        Inl e \<Rightarrow> Inl e
      | Inr C \<Rightarrow>
          (case view bs (num_queries outputs) C of
             Inl e \<Rightarrow> Inl e
           | Inr C3 \<Rightarrow>
               let sizes = map (\<lambda>v. length (boxes v)) targets;
                   cs = split sizes C3
               in if bs < length cs then Inl IndexError
                  else Inr (map (\<lambda>i. cs ! i ! i) [0..<length cs])))"

text \<open>
  \<^verbatim>\<open>forward\<close> returns the index pairs of every slice. It assigns to no attribute of
  \<^verbatim>\<open>self\<close>: the object that the call leaves behind is the second component.
\<close>

definition forward ::
  "(box \<Rightarrow> box \<Rightarrow> real) \<Rightarrow> 'a matcher_scheme \<Rightarrow> outputs \<Rightarrow> target list \<Rightarrow>
   (error + (nat list \<times> nat list) list) \<times> 'a matcher_scheme" where
  "forward giou self outputs targets =
     (case cost_slices giou self outputs targets of
        Inl e \<Rightarrow> (Inl e, self)
      | Inr slices \<Rightarrow> (Inr (map linear_sum_assignment slices), self))"

text \<open>
  The inputs that the interface admits: tensors of the stated shapes (every batch
  element has the same number of queries, every query as many logits and one box), one
  target for each batch element, and as many labels as boxes in each target. A nested
  list can be ragged where a tensor cannot, and on inputs of inconsistent shapes torch
  raises or broadcasts; the model follows the program on the well-shaped inputs, and
  the results about \<^verbatim>\<open>forward\<close> are stated for them. The numbers are reals: a run in
  which the floating-point program meets a value that is not a finite number is outside
  the model.
\<close>

definition num_classes :: "outputs \<Rightarrow> nat" where
  "num_classes outputs = (case concat (pred_logits outputs) of [] \<Rightarrow> 0 | p # _ \<Rightarrow> length p)"

definition well_shaped :: "outputs \<Rightarrow> target list \<Rightarrow> bool" where
  "well_shaped outputs targets \<longleftrightarrow>
     length (pred_boxes outputs) = length (pred_logits outputs) \<and>
     length targets = length (pred_logits outputs) \<and>
     list_all (\<lambda>q. length q = num_queries outputs \<and>
                   list_all (\<lambda>p. length p = num_classes outputs) q) (pred_logits outputs) \<and>
     list_all (\<lambda>q. length q = num_queries outputs) (pred_boxes outputs) \<and>
     list_all (\<lambda>v. length (labels v) = length (boxes v)) targets"

definition labels_in_range :: "outputs \<Rightarrow> target list \<Rightarrow> bool" where
  "labels_in_range outputs targets \<longleftrightarrow>
     list_all (\<lambda>v. list_all (valid_index (num_classes outputs)) (labels v)) targets"

text \<open>
  The cost matrix of one batch element computed from its own predictions and targets
  alone, as the spec allows an implementation to do (4.2, 9).
\<close>

definition direct_cost_matrix ::
  "(box \<Rightarrow> box \<Rightarrow> real) \<Rightarrow> 'a matcher_scheme \<Rightarrow> outputs \<Rightarrow> target list \<Rightarrow> nat \<Rightarrow>
   error + real list list" where
  "direct_cost_matrix giou self outputs targets b =
     cost_matrix giou self (map softmax (pred_logits outputs ! b)) (pred_boxes outputs ! b)
       (labels (targets ! b)) (boxes (targets ! b))"


text \<open>
  The entry of the cost matrix between one prediction and one target, in the words of
  the spec (4.2): the weighted sum of the L1 distance of the two boxes, the negated
  probability of the target's class and the negated generalized intersection over union
  of the boxes in corner form.
\<close>

definition cost_entry ::
  "(box \<Rightarrow> box \<Rightarrow> real) \<Rightarrow> 'a matcher_scheme \<Rightarrow> real list \<Rightarrow> box \<Rightarrow> int \<Rightarrow> box \<Rightarrow> real" where
  "cost_entry giou self prob pbox class_j tbox =
     cost_bbox self * l1_dist pbox tbox
     + cost_class self * (- (prob ! wrap_index (length prob) class_j))
     + cost_giou self * (- giou (box_cxcywh_to_xyxy pbox) (box_cxcywh_to_xyxy tbox))"

text \<open>The matrix of these entries between given rows and columns.\<close>

definition entries ::
  "(box \<Rightarrow> box \<Rightarrow> real) \<Rightarrow> 'a matcher_scheme \<Rightarrow> real list list \<Rightarrow> box list \<Rightarrow>
   int list \<Rightarrow> box list \<Rightarrow> real list list" where
  "entries giou self out_prob out_bbox tgt_ids tgt_bbox =
     map (\<lambda>(p, bx). map (\<lambda>(l, tb). cost_entry giou self p bx l tb) (zip tgt_ids tgt_bbox))
       (zip out_prob out_bbox)"


text \<open>A matrix of \<open>nr\<close> rows of length \<open>nc\<close>.\<close>

definition has_shape :: "nat \<Rightarrow> nat \<Rightarrow> 'a list list \<Rightarrow> bool" where
  "has_shape nr nc c \<longleftrightarrow> length c = nr \<and> list_all (\<lambda>row. length row = nc) c"


subsection \<open>Small inputs\<close>

text \<open>
  One batch element with two queries over two classes and one target, or with no
  target; the concrete instances of the results below are stated on these inputs.
\<close>

abbreviation (input) ex_giou :: "box \<Rightarrow> box \<Rightarrow> real" where
  "ex_giou \<equiv> \<lambda>a b. 0"

abbreviation (input) ex_matcher :: matcher where
  "ex_matcher \<equiv> \<lparr>cost_class = 1, cost_bbox = 1, cost_giou = 1\<rparr>"

abbreviation (input) ex_outputs :: outputs where
  "ex_outputs \<equiv> \<lparr>pred_logits = [[[0, 0], [0, 0]]], pred_boxes = [[(0, 0, 1, 1), (1, 1, 1, 1)]]\<rparr>"

abbreviation (input) ex_targets :: "target list" where
  "ex_targets \<equiv> [\<lparr>labels = [0], boxes = [(1, 1, 1, 1)]\<rparr>]"

abbreviation (input) ex_no_targets :: "target list" where
  "ex_no_targets \<equiv> [\<lparr>labels = [], boxes = []\<rparr>]"

text \<open>
  Two batch elements with two queries each, with one and two targets, or with no target
  and one; and one batch element without queries.
\<close>

abbreviation (input) ex2_outputs :: outputs where
  "ex2_outputs \<equiv> \<lparr>pred_logits = [[[0, 0], [0, 0]], [[0, 0], [0, 0]]],
     pred_boxes = [[(0, 0, 1, 1), (1, 1, 1, 1)], [(2, 2, 1, 1), (3, 3, 1, 1)]]\<rparr>"

abbreviation (input) ex2_targets :: "target list" where
  "ex2_targets \<equiv> [\<lparr>labels = [0], boxes = [(1, 1, 1, 1)]\<rparr>,
     \<lparr>labels = [1, 0], boxes = [(3, 3, 1, 1), (2, 2, 1, 1)]\<rparr>]"




section \<open>The assignment solver\<close>

lemma rows_choice_sound:
  "ys \<in> set (rows_choice k xs) \<Longrightarrow> sorted_wrt (<) (xs :: 'a::linorder list) \<Longrightarrow>
   length ys = k \<and> sorted_wrt (<) ys \<and> set ys \<subseteq> set xs"
proof (induction k xs arbitrary: ys rule: rows_choice.induct)
  case (1 xs)
  then show ?case by simp
next
  case (2 k)
  then show ?case by simp
next
  case (3 k x xs)
  from "3.prems" have sx: "sorted_wrt (<) xs" and lt: "\<forall>y\<in>set xs. x < y" by auto
  from "3.prems"(1) consider (a) ys' where "ys = x # ys'" "ys' \<in> set (rows_choice k xs)"
    | (b) "ys \<in> set (rows_choice (Suc k) xs)" by auto
  then show ?case
  proof cases
    case a
    with "3.IH"(1) [OF a(2) sx] lt show ?thesis by auto
  next
    case b
    with "3.IH"(2) [OF b sx] show ?thesis by auto
  qed
qed

lemma rows_choice_complete:
  "sorted_wrt (<) (xs :: 'a::linorder list) \<Longrightarrow> sorted_wrt (<) ys \<Longrightarrow> set ys \<subseteq> set xs \<Longrightarrow>
   ys \<in> set (rows_choice (length ys) xs)"
proof (induction xs arbitrary: ys)
  case Nil
  then show ?case by simp
next
  case (Cons x xs)
  show ?case
  proof (cases ys)
    case Nil
    then show ?thesis by simp
  next
    case (Cons y ys')
    from Cons.prems(1) have sx: "sorted_wrt (<) xs" and lt: "\<forall>z\<in>set xs. x < z" by auto
    from Cons.prems(2) Cons have sy: "sorted_wrt (<) ys'" and lty: "\<forall>z\<in>set ys'. y < z" by auto
    show ?thesis
    proof (cases "y = x")
      case True
      have "set ys' \<subseteq> set xs"
        using Cons.prems(3) Cons lty True by auto
      from Cons.IH [OF sx sy this] show ?thesis using Cons True by simp
    next
      case False
      with Cons.prems(3) Cons have "y \<in> set xs" by auto
      with lt have "x < y" by simp
      with lty have "\<forall>z\<in>set ys. x < z" using Cons by auto
      with Cons.prems(3) have "set ys \<subseteq> set xs" by auto
      from Cons.IH [OF sx Cons.prems(2) this] show ?thesis using Cons by simp
    qed
  qed
qed

lemma set_injections:
  "distinct xs \<Longrightarrow>
   set (injections k xs) = {ys. length ys = k \<and> distinct ys \<and> set ys \<subseteq> set xs}"
proof (induction k arbitrary: xs)
  case 0
  then show ?case by auto
next
  case (Suc k)
  have r: "\<And>x. set (injections k (remove1 x xs)) =
      {ys. length ys = k \<and> distinct ys \<and> set ys \<subseteq> set xs - {x}}"
    using Suc.IH [OF distinct_remove1 [OF Suc.prems]] Suc.prems by simp
  show ?case
  proof (intro set_eqI iffI)
    fix ys assume "ys \<in> set (injections (Suc k) xs)"
    then obtain x ys' where "x \<in> set xs" "ys = x # ys'" "ys' \<in> set (injections k (remove1 x xs))"
      by auto
    with r show "ys \<in> {ys. length ys = Suc k \<and> distinct ys \<and> set ys \<subseteq> set xs}"
      by auto
  next
    fix ys assume a: "ys \<in> {ys. length ys = Suc k \<and> distinct ys \<and> set ys \<subseteq> set xs}"
    then obtain x ys' where ys: "ys = x # ys'" by (cases ys) auto
    with a have "x \<in> set xs" "ys' \<in> set (injections k (remove1 x xs))"
      using r by auto
    then show "ys \<in> set (injections (Suc k) xs)" using ys by auto
  qed
qed

lemma set_assignments:
  "set (assignments nr nc) =
     {a. length (fst a) = min nr nc \<and> sorted_wrt (<) (fst a) \<and> set (fst a) \<subseteq> {..<nr} \<and>
         length (snd a) = min nr nc \<and> distinct (snd a) \<and> set (snd a) \<subseteq> {..<nc}}"
proof -
  have s: "sorted_wrt (<) [0..<nr]" by simp
  have rows: "set (rows_choice (min nr nc) [0..<nr]) =
      {rs. length rs = min nr nc \<and> sorted_wrt (<) rs \<and> set rs \<subseteq> {..<nr}}"
  proof (intro set_eqI iffI)
    fix rs assume "rs \<in> set (rows_choice (min nr nc) [0..<nr])"
    from rows_choice_sound [OF this s]
    show "rs \<in> {rs. length rs = min nr nc \<and> sorted_wrt (<) rs \<and> set rs \<subseteq> {..<nr}}"
      by auto
  next
    fix rs assume a: "rs \<in> {rs. length rs = min nr nc \<and> sorted_wrt (<) rs \<and> set rs \<subseteq> {..<nr}}"
    then have "set rs \<subseteq> set [0..<nr]" by auto
    from rows_choice_complete [OF s _ this] a
    show "rs \<in> set (rows_choice (min nr nc) [0..<nr])" by auto
  qed
  have cols: "set (injections (min nr nc) [0..<nc]) =
      {cs. length cs = min nr nc \<and> distinct cs \<and> set cs \<subseteq> {..<nc}}"
    by (auto simp: set_injections)
  have "set (assignments nr nc) =
      set (rows_choice (min nr nc) [0..<nr]) \<times> set (injections (min nr nc) [0..<nc])"
    by (auto simp: assignments_def Let_def)
  then show ?thesis
    unfolding rows cols by auto
qed

lemma assignments_nonempty: "assignments nr nc \<noteq> []"
proof -
  have "([0..<min nr nc], [0..<min nr nc]) \<in> set (assignments nr nc)"
    unfolding set_assignments by auto
  then show ?thesis by auto
qed


lemma solver_dims:
  assumes "has_shape nr nc c" "0 < nr"
  shows "linear_sum_assignment c =
     (if nc = 0 then ([], []) else arg_min_list (assignment_cost c) (assignments nr nc))"
  using assms by (cases c) (auto simp: linear_sum_assignment_def has_shape_def)

lemma solver_in_assignments:
  assumes "has_shape nr nc c" "0 < nr"
  shows "linear_sum_assignment c \<in> set (assignments nr nc)"
proof (cases "nc = 0")
  case True
  then show ?thesis
    using assms by (simp add: solver_dims set_assignments)
next
  case False
  then show ?thesis
    using assms arg_min_list_in [OF assignments_nonempty, of "assignment_cost c" nr nc]
    by (simp add: solver_dims)
qed



section \<open>The cost matrix and its slices\<close>

lemma cost_matrix_entries:
  assumes "cost_matrix giou self out_prob out_bbox tgt_ids tgt_bbox = Inr C"
    and "length out_bbox = length out_prob" and "length tgt_bbox = length tgt_ids"
  shows "C = entries giou self out_prob out_bbox tgt_ids tgt_bbox"
proof -
  from assms(1) have C: "C =
      mat_add (mat_add (mat_scale (cost_bbox self) (cdist out_bbox tgt_bbox))
          (mat_scale (cost_class self)
             (mat_neg (map (\<lambda>row. map (\<lambda>i. row ! wrap_index (length row) i) tgt_ids) out_prob))))
        (mat_scale (cost_giou self)
          (mat_neg (generalized_box_iou giou (map box_cxcywh_to_xyxy out_bbox)
              (map box_cxcywh_to_xyxy tgt_bbox))))"
    by (auto simp: cost_matrix_def index_columns_def Let_def split: if_splits)
  show ?thesis
    unfolding C entries_def
    by (rule nth_equalityI)
       (auto simp: assms(2,3) mat_add_def mat_scale_def mat_neg_def cdist_def
          generalized_box_iou_def cost_entry_def intro!: nth_equalityI)
qed

lemma cost_matrix_ok:
  "(\<exists>C. cost_matrix giou self out_prob out_bbox tgt_ids tgt_bbox = Inr C) \<longleftrightarrow>
   list_all (\<lambda>row. list_all (valid_index (length row)) tgt_ids) out_prob"
  by (auto simp: cost_matrix_def index_columns_def Let_def)

lemma take_drop_concat:
  "list_all (\<lambda>q. length q = n) xss \<Longrightarrow> b < length xss \<Longrightarrow>
   take n (drop (b * n) (concat xss)) = xss ! b"
proof (induction xss arbitrary: b)
  case Nil
  then show ?case by simp
next
  case (Cons q xss)
  then show ?case by (cases b) (auto simp: drop_append)
qed

lemma split_sizes_concat:
  "k < length xss \<Longrightarrow> split_sizes (map length xss) (concat xss) ! k = xss ! k"
proof (induction xss arbitrary: k)
  case Nil
  then show ?case by simp
next
  case (Cons q xss)
  then show ?case by (cases k) auto
qed

lemma zip_concat:
  "list_all2 (\<lambda>x y. length x = length y) xss yss \<Longrightarrow>
   zip (concat xss) (concat yss) = concat (map2 zip xss yss)"
  by (induction xss yss rule: list_all2_induct) auto

lemma length_concat_uniform:
  "list_all (\<lambda>q. length q = n) xss \<Longrightarrow> length (concat xss) = length xss * n"
  by (induction xss) auto

lemma zip_concat_map:
  "list_all (\<lambda>v. length (f v) = length (g v)) ts \<Longrightarrow>
   zip (concat (map f ts)) (concat (map g ts)) = concat (map (\<lambda>v. zip (f v) (g v)) ts)"
  by (induction ts) auto

lemma row_split:
  assumes "list_all (\<lambda>v. length (labels v) = length (boxes v)) targets" and "b < length targets"
  shows "split_sizes (map (\<lambda>v. length (boxes v)) targets)
           (map g (zip (concat (map labels targets)) (concat (map boxes targets)))) ! b
         = map g (zip (labels (targets ! b)) (boxes (targets ! b)))"
proof -
  let ?blocks = "map (\<lambda>v. map g (zip (labels v) (boxes v))) targets"
  have "zip (concat (map labels targets)) (concat (map boxes targets))
      = concat (map (\<lambda>v. zip (labels v) (boxes v)) targets)"
    using assms(1) by (rule zip_concat_map)
  then have row: "map g (zip (concat (map labels targets)) (concat (map boxes targets)))
      = concat ?blocks"
    by (simp add: map_concat comp_def)
  have sizes: "map (\<lambda>v. length (boxes v)) targets = map length ?blocks"
    using assms(1) by (simp add: list_all_iff)
  show ?thesis
    unfolding row sizes using split_sizes_concat [of b ?blocks] assms(2) by simp
qed

lemma rows_view:
  assumes "list_all (\<lambda>q. length q = n) xss" "list_all (\<lambda>q. length q = n) yss"
    and "length yss = length xss" and "b < length xss"
  shows "take n (drop (b * n) (map f (zip (concat xss) (concat yss))))
         = map f (zip (xss ! b) (yss ! b))"
proof -
  let ?blocks = "map (map f) (map2 zip xss yss)"
  have "list_all2 (\<lambda>x y. length x = length y) xss yss"
    using assms(1-3) by (simp add: list_all2_conv_all_nth list_all_length)
  then have rows: "map f (zip (concat xss) (concat yss)) = concat ?blocks"
    by (simp add: zip_concat map_concat)
  have "list_all (\<lambda>q. length q = n) ?blocks"
    using assms(1-3) by (auto simp: list_all_length)
  from take_drop_concat [OF this, of b] show ?thesis
    unfolding rows using assms(3,4) by simp
qed

lemma full_cost_matrix_entries:
  assumes ws: "well_shaped outputs targets"
    and full: "full_cost_matrix giou self outputs targets = Inr C"
  shows "C = entries giou self (map softmax (concat (pred_logits outputs)))
           (concat (pred_boxes outputs)) (concat (map labels targets)) (concat (map boxes targets))"
proof -
  from full have cm: "cost_matrix giou self (map softmax (concat (pred_logits outputs)))
      (concat (pred_boxes outputs)) (concat (map labels targets)) (concat (map boxes targets)) = Inr C"
    by (simp add: full_cost_matrix_def Let_def split: if_splits)
  from ws have "list_all (\<lambda>q. length q = num_queries outputs) (pred_logits outputs)"
    and "list_all (\<lambda>q. length q = num_queries outputs) (pred_boxes outputs)"
    and "length (pred_boxes outputs) = length (pred_logits outputs)"
    by (auto simp: well_shaped_def list_all_iff)
  then have l1: "length (concat (pred_boxes outputs)) = length (map softmax (concat (pred_logits outputs)))"
    by (simp add: length_concat_uniform)
  from ws have "map (\<lambda>v. length (boxes v)) targets = map (\<lambda>v. length (labels v)) targets"
    by (simp add: well_shaped_def list_all_iff)
  then have "sum_list (map (\<lambda>v. length (boxes v)) targets)
      = sum_list (map (\<lambda>v. length (labels v)) targets)"
    by (rule arg_cong)
  then have l2: "length (concat (map boxes targets)) = length (concat (map labels targets))"
    by (simp add: length_concat comp_def)
  from cost_matrix_entries [OF cm l1 l2] show ?thesis .
qed

lemma slices_direct:
  assumes ws: "well_shaped outputs targets"
    and sl: "cost_slices giou self outputs targets = Inr slices"
  shows "length slices = length targets"
    and "length targets = length (pred_logits outputs)"
    and "0 < num_queries outputs"
    and "b < length targets \<Longrightarrow> slices ! b =
          entries giou self (map softmax (pred_logits outputs ! b)) (pred_boxes outputs ! b)
            (labels (targets ! b)) (boxes (targets ! b))"
proof -
  let ?bs = "length (pred_logits outputs)" and ?nq = "num_queries outputs"
  let ?sizes = "map (\<lambda>v. length (boxes v)) targets"
  from sl obtain C where full: "full_cost_matrix giou self outputs targets = Inr C"
    by (auto simp: cost_slices_def Let_def split: sum.splits)
  from sl full obtain C3 where v: "view ?bs ?nq C = Inr C3"
    by (auto simp: cost_slices_def Let_def split: sum.splits)
  from v have pos: "0 < ?bs" "0 < ?nq"
    and C3: "C3 = map (\<lambda>b. take ?nq (drop (b * ?nq) C)) [0..<?bs]"
    by (auto simp: view_def split: if_splits)
  from ws have len: "length targets = ?bs" "length (pred_boxes outputs) = ?bs"
    and ql: "list_all (\<lambda>q. length q = ?nq) (pred_logits outputs)"
    and qb: "list_all (\<lambda>q. length q = ?nq) (pred_boxes outputs)"
    and tl: "list_all (\<lambda>v. length (labels v) = length (boxes v)) targets"
    by (auto simp: well_shaped_def list_all_iff)
  from sl full v have slices:
    "slices = map (\<lambda>i. split ?sizes C3 ! i ! i) [0..<length (split ?sizes C3)]"
    by (auto simp: cost_slices_def Let_def split: sum.splits if_splits)
  have ls: "length (split ?sizes C3) = length targets"
    by (simp add: split_def)
  show "length slices = length targets"
    by (simp add: slices ls)
  show "length targets = ?bs" by (rule len)
  show "0 < ?nq" by (rule pos)
  assume b: "b < length targets"
  let ?row = "\<lambda>(p, bx). map (\<lambda>(l, tb). cost_entry giou self p bx l tb)
      (zip (concat (map labels targets)) (concat (map boxes targets)))"
  have C: "C = map ?row (zip (concat (map (map softmax) (pred_logits outputs)))
      (concat (pred_boxes outputs)))"
    using full_cost_matrix_entries [OF ws full] by (simp add: entries_def map_concat)
  have ql': "list_all (\<lambda>q. length q = ?nq) (map (map softmax) (pred_logits outputs))"
    using ql by (simp add: list_all_iff)
  have "C3 ! b = take ?nq (drop (b * ?nq) C)"
    using b len by (simp add: C3)
  also have "\<dots> = map ?row (zip (map (map softmax) (pred_logits outputs) ! b) (pred_boxes outputs ! b))"
    unfolding C using rows_view [OF ql' qb, of b ?row] b len by simp
  finally have C3b: "C3 ! b = map ?row (zip (map softmax (pred_logits outputs ! b)) (pred_boxes outputs ! b))"
    using b len by simp
  have "slices ! b = split ?sizes C3 ! b ! b"
    using b by (simp add: slices ls)
  also have "\<dots> = map (\<lambda>row. split_sizes ?sizes row ! b) (C3 ! b)"
    using b len by (simp add: split_def C3)
  also have "\<dots> = entries giou self (map softmax (pred_logits outputs ! b)) (pred_boxes outputs ! b)
            (labels (targets ! b)) (boxes (targets ! b))"
    unfolding C3b entries_def by (auto simp: row_split [OF tl b])
  finally show "slices ! b = entries giou self (map softmax (pred_logits outputs ! b))
      (pred_boxes outputs ! b) (labels (targets ! b)) (boxes (targets ! b))" .
qed

lemma entries_shape:
  assumes "length out_bbox = length out_prob" "length tgt_bbox = length tgt_ids"
  shows "has_shape (length out_prob) (length tgt_ids)
           (entries giou self out_prob out_bbox tgt_ids tgt_bbox)"
  using assms by (auto simp: has_shape_def entries_def list_all_iff)

lemma slice_shape:
  assumes ws: "well_shaped outputs targets"
    and sl: "cost_slices giou self outputs targets = Inr slices"
    and b: "b < length targets"
  shows "has_shape (num_queries outputs) (length (boxes (targets ! b))) (slices ! b)"
proof -
  from slices_direct(2) [OF ws sl] b have b': "b < length (pred_logits outputs)" by simp
  from ws b b' have "length (pred_logits outputs ! b) = num_queries outputs"
    and "length (pred_boxes outputs ! b) = num_queries outputs"
    and "length (labels (targets ! b)) = length (boxes (targets ! b))"
    by (auto simp: well_shaped_def list_all_length)
  then show ?thesis
    using entries_shape [of "pred_boxes outputs ! b" "map softmax (pred_logits outputs ! b)"
        "boxes (targets ! b)" "labels (targets ! b)" giou self]
    by (simp add: slices_direct(4) [OF ws sl b])
qed

lemma forward_result:
  "fst (forward giou self outputs targets) = Inr res \<longleftrightarrow>
   (\<exists>slices. cost_slices giou self outputs targets = Inr slices \<and>
      res = map linear_sum_assignment slices)"
  by (auto simp: forward_def split: sum.splits)

lemma cost_slices_ok:
  assumes ws: "well_shaped outputs targets" and lr: "labels_in_range outputs targets"
    and bs: "pred_logits outputs \<noteq> []" and nq: "0 < num_queries outputs"
  shows "\<exists>slices. cost_slices giou self outputs targets = Inr slices"
proof -
  from ws bs have t: "targets \<noteq> []" "length targets = length (pred_logits outputs)"
    by (auto simp: well_shaped_def)
  from ws have "\<forall>p\<in>set (concat (pred_logits outputs)). length p = num_classes outputs"
    by (auto simp: well_shaped_def list_all_iff)
  moreover from lr have "\<forall>l\<in>set (concat (map labels targets)). valid_index (num_classes outputs) l"
    by (auto simp: labels_in_range_def list_all_iff)
  ultimately have "list_all (\<lambda>row. list_all (valid_index (length row)) (concat (map labels targets)))
      (map softmax (concat (pred_logits outputs)))"
    by (auto simp: list_all_iff softmax_def)
  then obtain C where "full_cost_matrix giou self outputs targets = Inr C"
    using t cost_matrix_ok [of giou self "map softmax (concat (pred_logits outputs))"
        "concat (pred_boxes outputs)" "concat (map labels targets)" "concat (map boxes targets)"]
    by (auto simp: full_cost_matrix_def Let_def)
  then show ?thesis
    using bs nq t by (simp add: cost_slices_def Let_def view_def split_def)
qed


text \<open>
  With an empty batch or without queries every call raises: \<^verbatim>\<open>torch.cat\<close> refuses an
  empty list of targets, and the reshape of line 60 refuses to infer the last dimension.
\<close>

lemma forward_needs_queries:
  assumes "pred_logits outputs = [] \<or> num_queries outputs = 0"
  shows "\<exists>e. fst (forward giou self outputs targets) = Inl e"
  using assms by (auto simp: forward_def cost_slices_def view_def Let_def split: sum.splits)

section \<open>The small inputs, evaluated\<close>

lemmas eval_defs = cost_slices_def full_cost_matrix_def cost_matrix_def index_columns_def
      valid_index_def wrap_index_def softmax_def cdist_def generalized_box_iou_def mat_neg_def
      mat_scale_def mat_add_def view_def split_def num_queries_def num_classes_def Let_def

lemma ex_well_shaped: "well_shaped ex_outputs ex_targets"
  by (simp add: well_shaped_def num_queries_def num_classes_def)


lemma ex_full: "full_cost_matrix ex_giou ex_matcher ex_outputs ex_targets = Inr [[3 / 2], [- (1 / 2)]]"
  by (simp add: eval_defs)

lemma ex_slices: "cost_slices ex_giou ex_matcher ex_outputs ex_targets = Inr [[[3 / 2], [- (1 / 2)]]]"
  by (simp add: eval_defs)

lemma ex_solver: "linear_sum_assignment [[3 / 2], [- (1 / 2)]] = ([1], [0])"
  by code_simp

lemma ex_forward: "fst (forward ex_giou ex_matcher ex_outputs ex_targets) = Inr [([1], [0])]"
  by (simp add: forward_def ex_slices ex_solver)

lemma ex2_well_shaped: "well_shaped ex2_outputs ex2_targets"
  by (simp add: well_shaped_def num_queries_def num_classes_def)


lemma ex2_full: "full_cost_matrix ex_giou ex_matcher ex2_outputs ex2_targets =
    Inr [[3 / 2, 11 / 2, 7 / 2], [- (1 / 2), 7 / 2, 3 / 2], [3 / 2, 3 / 2, - (1 / 2)], [7 / 2, - (1 / 2), 3 / 2]]"
  by (simp add: eval_defs)

lemma ex2_slices: "cost_slices ex_giou ex_matcher ex2_outputs ex2_targets =
    Inr [[[3 / 2], [- (1 / 2)]], [[3 / 2, - (1 / 2)], [- (1 / 2), 3 / 2]]]"
  by (simp add: eval_defs upt_rec)








section \<open>The entries of the cost matrix\<close>

text \<open>
  C2. For every prediction \<open>i\<close> of the flattened batch and every target \<open>j\<close> of the
  concatenated targets, entry \<open>(i, j)\<close> of the cost matrix of line 59 is
  \<open>w_bbox\<close> times the L1 distance of the two centre-size boxes, plus \<open>w_class\<close> times the
  negated softmax probability that prediction \<open>i\<close> gives to the class of target \<open>j\<close>
  (the probability itself, no logarithm), plus \<open>w_giou\<close> times the negated generalized
  intersection over union of the two boxes in corner form, with the weights given at
  construction.
\<close>

theorem cost_matrix_entry:
  assumes "init w_class w_bbox w_giou = Inr self"
    and "well_shaped outputs targets"
    and "full_cost_matrix giou self outputs targets = Inr C"
    and "i < length (concat (pred_logits outputs))"
    and "j < length (concat (map labels targets))"
  shows "C ! i ! j =
     w_bbox * l1_dist (concat (pred_boxes outputs) ! i) (concat (map boxes targets) ! j)
     + w_class * (- (softmax (concat (pred_logits outputs) ! i)
           ! wrap_index (length (concat (pred_logits outputs) ! i)) (concat (map labels targets) ! j)))
     + w_giou * (- giou (box_cxcywh_to_xyxy (concat (pred_boxes outputs) ! i))
                     (box_cxcywh_to_xyxy (concat (map boxes targets) ! j)))"
proof -
  from assms(1) have w: "cost_class self = w_class" "cost_bbox self = w_bbox" "cost_giou self = w_giou"
    by (auto simp: init_def Let_def split: if_splits)
  from assms(2) have "list_all (\<lambda>q. length q = num_queries outputs) (pred_logits outputs)"
    and "list_all (\<lambda>q. length q = num_queries outputs) (pred_boxes outputs)"
    and "length (pred_boxes outputs) = length (pred_logits outputs)"
    by (auto simp: well_shaped_def list_all_iff)
  then have l1: "length (concat (pred_boxes outputs)) = length (concat (pred_logits outputs))"
    by (simp add: length_concat_uniform)
  from assms(2) have "map (\<lambda>v. length (boxes v)) targets = map (\<lambda>v. length (labels v)) targets"
    by (simp add: well_shaped_def list_all_iff)
  then have "sum_list (map (\<lambda>v. length (boxes v)) targets)
      = sum_list (map (\<lambda>v. length (labels v)) targets)"
    by (rule arg_cong)
  then have l2: "length (concat (map boxes targets)) = length (concat (map labels targets))"
    by (simp add: length_concat comp_def)
  show ?thesis
    unfolding full_cost_matrix_entries [OF assms(2,3)] entries_def
    using assms(4,5) l1 l2 by (simp add: cost_entry_def w softmax_def)
qed

theorem cost_matrix_entry_witness:
  "init 1 1 1 = Inr ex_matcher \<and> well_shaped ex_outputs ex_targets \<and>
   full_cost_matrix ex_giou ex_matcher ex_outputs ex_targets = Inr [[3 / 2], [- (1 / 2)]] \<and>
   [[3 / 2], [- (1 / 2) :: real]] ! 1 ! 0 =
     1 * l1_dist (1, 1, 1, 1) (1, 1, 1, 1) + 1 * (- (softmax [0, 0] ! 0)) + 1 * (- 0)"
proof -
  have i: "init 1 1 1 = Inr ex_matcher" by (simp add: init_def)
  show ?thesis
    using cost_matrix_entry [OF i ex_well_shaped ex_full, of 1 0] i ex_well_shaped ex_full
    by (simp add: wrap_index_def)
qed

section \<open>Slices and batch elements\<close>

lemma direct_of_slices:
  assumes "well_shaped outputs targets"
    and "cost_slices giou self outputs targets = Inr slices"
    and "b < length targets"
  shows "direct_cost_matrix giou self outputs targets b = Inr (slices ! b)"
proof -
  let ?prob = "map softmax (pred_logits outputs ! b)" and ?ids = "labels (targets ! b)"
  from slices_direct(2) [OF assms(1,2)] assms(3)
  have b': "b < length (pred_logits outputs)" by simp
  from assms(2) obtain C where full: "full_cost_matrix giou self outputs targets = Inr C"
    by (auto simp: cost_slices_def Let_def split: sum.splits)
  then have "\<exists>C. cost_matrix giou self (map softmax (concat (pred_logits outputs)))
      (concat (pred_boxes outputs)) (concat (map labels targets)) (concat (map boxes targets)) = Inr C"
    by (auto simp: full_cost_matrix_def Let_def split: if_splits)
  then have all: "list_all (\<lambda>row. list_all (valid_index (length row)) (concat (map labels targets)))
      (map softmax (concat (pred_logits outputs)))"
    by (simp only: cost_matrix_ok)
  have "pred_logits outputs ! b \<in> set (pred_logits outputs)" and "targets ! b \<in> set targets"
    using b' assms(3) by simp_all
  then have "list_all (\<lambda>row. list_all (valid_index (length row)) ?ids) ?prob"
    using all by (auto simp: list_all_iff)
  then obtain D where D: "cost_matrix giou self ?prob (pred_boxes outputs ! b) ?ids
      (boxes (targets ! b)) = Inr D"
    using cost_matrix_ok [of giou self ?prob "pred_boxes outputs ! b" ?ids "boxes (targets ! b)"]
    by auto
  from assms(1,3) b' have "length (pred_boxes outputs ! b) = length ?prob"
    and "length (boxes (targets ! b)) = length ?ids"
    by (auto simp: well_shaped_def list_all_length)
  from cost_matrix_entries [OF D this]
  have "D = slices ! b"
    by (simp add: slices_direct(4) [OF assms])
  with D show ?thesis
    by (simp add: direct_cost_matrix_def)
qed

lemma positive_queries_batch: "0 < num_queries outputs \<Longrightarrow> pred_logits outputs \<noteq> []"
  by (auto simp: num_queries_def)

text \<open>
  C4. On inputs of consistent shape, \<^verbatim>\<open>forward\<close> computes the cost slices whenever
  the labels index a class and there is a query, for any number of batch elements; the
  slice that it hands to the solver for batch element \<open>b\<close> is the cost matrix computed
  from the predictions and the targets of batch element \<open>b\<close> alone, and the index pair
  returned for \<open>b\<close> is the solver's result on that matrix: no entry between a
  prediction of one batch element and a target of another reaches the solver.
\<close>

theorem slices_are_direct:
  assumes "well_shaped outputs targets"
  shows "(labels_in_range outputs targets \<and> 0 < num_queries outputs \<longrightarrow>
            (\<exists>slices. cost_slices giou self outputs targets = Inr slices)) \<and>
         (\<forall>slices. cost_slices giou self outputs targets = Inr slices \<longrightarrow>
            length slices = length targets \<and>
            fst (forward giou self outputs targets) = Inr (map linear_sum_assignment slices) \<and>
            (\<forall>b < length targets.
               direct_cost_matrix giou self outputs targets b = Inr (slices ! b) \<and>
               map linear_sum_assignment slices ! b = linear_sum_assignment (slices ! b)))"
proof (intro conjI impI allI)
  assume "labels_in_range outputs targets \<and> 0 < num_queries outputs"
  then show "\<exists>slices. cost_slices giou self outputs targets = Inr slices"
    using cost_slices_ok [OF assms] positive_queries_batch by blast
next
  fix slices assume sl: "cost_slices giou self outputs targets = Inr slices"
  show len: "length slices = length targets"
    by (rule slices_direct(1) [OF assms sl])
  show "fst (forward giou self outputs targets) = Inr (map linear_sum_assignment slices)"
    by (simp add: forward_def sl)
  fix b assume b: "b < length targets"
  show "direct_cost_matrix giou self outputs targets b = Inr (slices ! b)"
    by (rule direct_of_slices [OF assms sl b])
  show "map linear_sum_assignment slices ! b = linear_sum_assignment (slices ! b)"
    using b len by simp
qed

theorem slices_are_direct_witness:
  "well_shaped ex2_outputs ex2_targets \<and>
   cost_slices ex_giou ex_matcher ex2_outputs ex2_targets =
     Inr [[[3 / 2], [- (1 / 2)]], [[3 / 2, - (1 / 2)], [- (1 / 2), 3 / 2]]] \<and>
   direct_cost_matrix ex_giou ex_matcher ex2_outputs ex2_targets 0 = Inr [[3 / 2], [- (1 / 2)]] \<and>
   direct_cost_matrix ex_giou ex_matcher ex2_outputs ex2_targets 1 =
     Inr [[3 / 2, - (1 / 2)], [- (1 / 2), 3 / 2]]"
proof -
  from slices_are_direct [OF ex2_well_shaped, of ex_giou ex_matcher] ex2_slices
  have d: "\<forall>b < length ex2_targets. direct_cost_matrix ex_giou ex_matcher ex2_outputs ex2_targets b =
      Inr ([[[3 / 2], [- (1 / 2)]], [[3 / 2, - (1 / 2)], [- (1 / 2), 3 / 2]]] ! b)"
    by blast
  from d have "direct_cost_matrix ex_giou ex_matcher ex2_outputs ex2_targets 0 = Inr [[3 / 2], [- (1 / 2)]]"
    by simp
  moreover from d have "direct_cost_matrix ex_giou ex_matcher ex2_outputs ex2_targets 1 =
      Inr [[3 / 2, - (1 / 2)], [- (1 / 2), 3 / 2]]"
    by simp
  ultimately show ?thesis
    using ex2_well_shaped ex2_slices by (intro conjI)
qed

section \<open>The returned index pairs\<close>

lemma forward_slices:
  assumes "well_shaped outputs targets"
    and "fst (forward giou self outputs targets) = Inr res"
    and "b < length targets"
  obtains slices where "cost_slices giou self outputs targets = Inr slices"
    and "res ! b = linear_sum_assignment (slices ! b)"
    and "has_shape (num_queries outputs) (length (boxes (targets ! b))) (slices ! b)"
    and "0 < num_queries outputs" and "length res = length targets"
proof -
  from assms(2) obtain slices where sl: "cost_slices giou self outputs targets = Inr slices"
    and res: "res = map linear_sum_assignment slices"
    by (auto simp: forward_result)
  from slices_direct(1,3) [OF assms(1) sl]
  have len: "length slices = length targets" and nq: "0 < num_queries outputs" .
  from res len assms(3) have "res ! b = linear_sum_assignment (slices ! b)" by simp
  with sl slice_shape [OF assms(1) sl assms(3)] nq res len show thesis
    by (intro that [of slices]) simp_all
qed

lemma permutation_of_upt:
  assumes "distinct xs" "length xs = n" "set xs \<subseteq> {..<n}"
  shows "mset xs = mset [0..<n]"
proof -
  from assms(1,2) have "card (set xs) = card {..<n}"
    by (simp add: distinct_card)
  with assms(3) have "set xs = {..<n}"
    by (intro card_subset_eq) simp_all
  also have "\<dots> = set [0..<n]"
    by (simp only: set_upt atLeast0LessThan)
  finally have "set xs = set [0..<n]" .
  moreover have "distinct [0..<n]" by simp
  ultimately show ?thesis
    using assms(1) set_eq_iff_mset_eq_distinct [of xs "[0..<n]"] by blast
qed



text \<open>
  C3. For every batch element with \<open>P\<close> predictions and \<open>G\<close> targets, the two returned
  index sequences have length \<open>min P G\<close>, repeat no index, hold prediction indices below
  \<open>P\<close> and target indices below \<open>G\<close>; when \<open>P = G\<close> each is a permutation of \<open>[0, P)\<close>.
\<close>

theorem forward_index_sequences:
  assumes "well_shaped outputs targets"
    and "fst (forward giou self outputs targets) = Inr res"
    and "b < length targets"
  shows "length (fst (res ! b)) = min (num_queries outputs) (length (boxes (targets ! b))) \<and>
         length (snd (res ! b)) = min (num_queries outputs) (length (boxes (targets ! b))) \<and>
         distinct (fst (res ! b)) \<and> distinct (snd (res ! b)) \<and>
         (\<forall>i \<in> set (fst (res ! b)). i < num_queries outputs) \<and>
         (\<forall>j \<in> set (snd (res ! b)). j < length (boxes (targets ! b))) \<and>
         (num_queries outputs = length (boxes (targets ! b)) \<longrightarrow>
            mset (fst (res ! b)) = mset [0..<num_queries outputs] \<and>
            mset (snd (res ! b)) = mset [0..<num_queries outputs])"
proof -
  let ?P = "num_queries outputs" and ?G = "length (boxes (targets ! b))"
  from assms obtain slices where "res ! b = linear_sum_assignment (slices ! b)"
    and "has_shape ?P ?G (slices ! b)" and "0 < ?P"
    by (rule forward_slices)
  then have "res ! b \<in> set (assignments ?P ?G)"
    by (simp add: solver_in_assignments)
  then have l: "length (fst (res ! b)) = min ?P ?G" "length (snd (res ! b)) = min ?P ?G"
    and s: "sorted_wrt (<) (fst (res ! b))" and d: "distinct (snd (res ! b))"
    and r: "set (fst (res ! b)) \<subseteq> {..<?P}" "set (snd (res ! b)) \<subseteq> {..<?G}"
    unfolding set_assignments by blast+
  from s have d': "distinct (fst (res ! b))"
    by (simp add: strict_sorted_iff)
  have p: "mset (fst (res ! b)) = mset [0..<?P] \<and> mset (snd (res ! b)) = mset [0..<?P]" if "?P = ?G"
  proof
    from l(1) that have "length (fst (res ! b)) = ?P" by simp
    with d' r(1) show "mset (fst (res ! b)) = mset [0..<?P]"
      by (intro permutation_of_upt)
    from l(2) that have "length (snd (res ! b)) = ?P" by simp
    moreover from r(2) that have "set (snd (res ! b)) \<subseteq> {..<?P}" by simp
    ultimately show "mset (snd (res ! b)) = mset [0..<?P]"
      using d by (intro permutation_of_upt)
  qed
  from r have "\<forall>i \<in> set (fst (res ! b)). i < ?P" "\<forall>j \<in> set (snd (res ! b)). j < ?G"
    by auto
  with l d d' p show ?thesis
    by blast
qed

theorem forward_index_sequences_witness:
  "well_shaped ex_outputs ex_targets \<and>
   fst (forward ex_giou ex_matcher ex_outputs ex_targets) = Inr [([1], [0])] \<and>
   length [1 :: nat] = min 2 1 \<and> length [0 :: nat] = min 2 1 \<and> distinct [1 :: nat] \<and>
   distinct [0 :: nat] \<and> (1 :: nat) < 2 \<and> (0 :: nat) < 1"
proof -
  have "length (fst ([([1 :: nat], [0 :: nat])] ! 0)) = min (num_queries ex_outputs) (length (boxes (ex_targets ! 0)))"
    using forward_index_sequences [OF ex_well_shaped ex_forward, of 0] by simp
  with ex_well_shaped ex_forward show ?thesis
    by (simp add: num_queries_def)
qed




section \<open>The state of the matcher\<close>

text \<open>
  C9. A call of \<^verbatim>\<open>forward\<close> leaves the matcher as it was: the three weights keep the
  values given at construction, and a later call returns what it would have returned
  without the earlier one.
\<close>

theorem forward_leaves_matcher:
  assumes "init w_class w_bbox w_giou = Inr self"
  shows "snd (forward giou self outputs targets) = self \<and>
         cost_class (snd (forward giou self outputs targets)) = w_class \<and>
         cost_bbox (snd (forward giou self outputs targets)) = w_bbox \<and>
         cost_giou (snd (forward giou self outputs targets)) = w_giou \<and>
         fst (forward giou (snd (forward giou self outputs targets)) outputs' targets')
           = fst (forward giou self outputs' targets')"
proof -
  from assms have "cost_class self = w_class" "cost_bbox self = w_bbox" "cost_giou self = w_giou"
    by (auto simp: init_def Let_def split: if_splits)
  moreover have "snd (forward giou self outputs targets) = self"
    by (simp add: forward_def split: sum.splits)
  ultimately show ?thesis by simp
qed

theorem forward_leaves_matcher_witness:
  "init 1 1 1 = Inr ex_matcher \<and>
   snd (forward ex_giou ex_matcher ex_outputs ex_no_targets) = ex_matcher \<and>
   fst (forward ex_giou (snd (forward ex_giou ex_matcher ex_outputs ex_no_targets))
          ex_outputs ex_targets) = Inr [([1], [0])]"
proof -
  have i: "init 1 1 1 = Inr ex_matcher" by (simp add: init_def)
  from forward_leaves_matcher [OF i, of ex_giou ex_outputs ex_no_targets ex_outputs ex_targets]
    i ex_forward
  show ?thesis by simp
qed

section \<open>Construction\<close>

text \<open>
  C7. For all real weights, construction fails exactly when the three weights are all
  zero; with a weight that is not zero it succeeds and the object holds the three
  weights as given.
\<close>

theorem init_fails_iff_all_zero:
  "((\<exists>e. init cc cb cg = Inl e) \<longleftrightarrow> cc = 0 \<and> cb = 0 \<and> cg = 0) \<and>
   (if cc = 0 \<and> cb = 0 \<and> cg = 0 then init cc cb cg = Inl AssertionError
    else init cc cb cg = Inr \<lparr>cost_class = cc, cost_bbox = cb, cost_giou = cg\<rparr>)"
  by (simp add: init_def)

theorem init_fails_iff_all_zero_witness:
  "init 0 0 0 = Inl AssertionError \<and>
   init 0 5 0 = Inr \<lparr>cost_class = 0, cost_bbox = 5, cost_giou = 0\<rparr>"
  using init_fails_iff_all_zero [of 0 0 0] init_fails_iff_all_zero [of 0 5 0] by simp


end
